theory Spec2Isabelle
  imports Complex_Main "HOL-Library.Sublist"
begin

section \<open>Data model of \<open>client/src/pages/Products.tsx\<close>\<close>

text \<open>
  The source file holds two React components, \<open>Products\<close> and \<open>Categories\<close>.
  Both keep a list of rows, a search text, a status filter and a page number in
  component state, derive a filtered and a paged view, and reconcile the list
  locally after each successful REST call.

  The two status types are the same union of string literals
  \<^verbatim>\<open>"active" | "inactive"\<close>, so they are one datatype here. The status filter
  has type \<^verbatim>\<open>Status | ""\<close>: the empty string is \<open>None\<close>.
  A JavaScript \<open>number\<close> is kept abstract as the type variable \<open>'n\<close>: the code
  only stores and converts prices, it never computes with them.

  A JavaScript string is a sequence of UTF-16 code units. A code unit is modelled by its
  number, a natural number below 65536; the code compares and concatenates strings and
  never computes with their units. \<open>ascii\<close> writes a string of ASCII characters as such a
  sequence, for the string literals of the source.
\<close>

type_synonym jstring = "nat list"

definition ascii :: "string \<Rightarrow> jstring" where
  "ascii s = map of_char s"

datatype Status = active | inactive

type_synonym ProductStatus = Status
type_synonym CategoryStatus = Status

record 'n ProductRow =
  pr_id :: jstring
  pr_code :: jstring
  pr_name :: jstring
  pr_category :: jstring
  pr_price :: 'n
  pr_image :: jstring
  pr_status :: ProductStatus

record Category =
  cat_id :: jstring
  cat_name :: jstring

record CategoryRow =
  cr_id :: jstring
  cr_name :: jstring
  cr_description :: jstring
  cr_status :: CategoryStatus

text \<open>
  The form values handed to \<open>onSubmit\<close>: \<^verbatim>\<open>Omit<ProductRow, "id" | "image">\<close> and
  \<^verbatim>\<open>Omit<CategoryRow, "id">\<close>.
\<close>

record 'n ProductValues =
  pv_code :: jstring
  pv_name :: jstring
  pv_category :: jstring
  pv_price :: 'n
  pv_status :: ProductStatus

record CategoryValues =
  cv_name :: jstring
  cv_description :: jstring
  cv_status :: CategoryStatus

text \<open>The component state: one field per \<open>useState\<close> hook.\<close>

record 'n ProductsState =
  ps_rows :: "'n ProductRow list"
  ps_categories :: "Category list"
  ps_search :: jstring
  ps_statusFilter :: "ProductStatus option"
  ps_page :: int
  ps_open :: bool
  ps_editing :: "'n ProductRow option"
  ps_imageUrl :: jstring

record CategoriesState =
  cs_rows :: "CategoryRow list"
  cs_search :: jstring
  cs_statusFilter :: "CategoryStatus option"
  cs_page :: int
  cs_open :: bool
  cs_editing :: "CategoryRow option"

section \<open>The filtered view\<close>

text \<open>
  \<open>String.prototype.includes\<close>: is there a position of the text at which the
  search string starts. The empty search string is found in every text.
\<close>

fun String_includes :: "jstring \<Rightarrow> jstring \<Rightarrow> bool" where
  "String_includes [] s = (s = [])"
| "String_includes (c # cs) s = (prefix s (c # cs) \<or> String_includes cs s)"

text \<open>
  \<open>String.prototype.toLowerCase\<close> is a built-in of the language: the default
  lower-casing of Unicode. It replaces each cased character by its small form and, by the
  \<open>Final_Sigma\<close> rule, turns a capital sigma (U+03A3) into the final small sigma
  (U+03C2) instead of the small sigma (U+03C3) when the sigma ends a word: when it is
  preceded by a cased letter, with only case-ignorable characters in between, and is not
  followed by a cased letter, again with only case-ignorable characters in between.

  The two filters take the function as their parameter \<open>toLowerCase\<close>.
  \<open>String_toLowerCase\<close> is the engine's function on the part of Unicode made of the ASCII
  characters and the basic Greek letters (capitals U+0391 to U+03A9, small letters U+03B1 to
  U+03C9). On any other code unit it is not meant to be the engine's function: it leaves the
  unit as it is and takes it for neither cased nor case-ignorable.
\<close>

definition is_cased :: "nat \<Rightarrow> bool" where
  "is_cased c =
     ((65 \<le> c \<and> c \<le> 90) \<or> (97 \<le> c \<and> c \<le> 122) \<or>
      (0x391 \<le> c \<and> c \<le> 0x3A9 \<and> c \<noteq> 0x3A2) \<or> (0x3B1 \<le> c \<and> c \<le> 0x3C9))"

text \<open>Among ASCII: apostrophe, full stop, colon, circumflex and grave accent.\<close>

definition is_case_ignorable :: "nat \<Rightarrow> bool" where
  "is_case_ignorable c = (c \<in> set [0x27, 0x2E, 0x3A, 0x5E, 0x60])"

definition lower_unit :: "nat \<Rightarrow> nat" where
  "lower_unit c =
     (if (65 \<le> c \<and> c \<le> 90) \<or> (0x391 \<le> c \<and> c \<le> 0x3A9 \<and> c \<noteq> 0x3A2)
      then c + 32 else c)"

text \<open>
  Is the nearest character that is not case-ignorable a cased letter? Asked of the text
  after a sigma, and of the text before it read backwards.
\<close>

fun cased_next :: "jstring \<Rightarrow> bool" where
  "cased_next [] = False"
| "cased_next (c # cs) = (if is_case_ignorable c then cased_next cs else is_cased c)"

text \<open>\<open>pre\<close> is the text already passed, nearest unit first.\<close>

fun lower_from :: "jstring \<Rightarrow> jstring \<Rightarrow> jstring" where
  "lower_from pre [] = []"
| "lower_from pre (c # cs) =
     (if c = 0x3A3 \<and> cased_next pre \<and> \<not> cased_next cs then 0x3C2 else lower_unit c)
       # lower_from (c # pre) cs"

definition String_toLowerCase :: "jstring \<Rightarrow> jstring" where
  "String_toLowerCase s = lower_from [] s"

text \<open>
  Lines 60-66: two \<open>filter\<close> calls in sequence, the first on the search text
  (\<open>search ? ... : true\<close>, the empty string being falsy), the second on the status.
\<close>

definition Products_filtered ::
  "(jstring \<Rightarrow> jstring) \<Rightarrow> 'n ProductRow list \<Rightarrow> jstring \<Rightarrow> ProductStatus option
     \<Rightarrow> 'n ProductRow list" where
  "Products_filtered toLowerCase rows search statusFilter =
     filter (\<lambda>r. case statusFilter of Some f \<Rightarrow> pr_status r = f | None \<Rightarrow> True)
       (filter (\<lambda>r. if search \<noteq> []
                     then String_includes (toLowerCase (pr_name r @ pr_code r)) (toLowerCase search)
                     else True) rows)"

text \<open>Lines 367-373: the same for categories, searching the name only.\<close>

definition Categories_filtered ::
  "(jstring \<Rightarrow> jstring) \<Rightarrow> CategoryRow list \<Rightarrow> jstring \<Rightarrow> CategoryStatus option
     \<Rightarrow> CategoryRow list" where
  "Categories_filtered toLowerCase rows search statusFilter =
     filter (\<lambda>r. case statusFilter of Some f \<Rightarrow> cr_status r = f | None \<Rightarrow> True)
       (filter (\<lambda>r. if search \<noteq> []
                     then String_includes (toLowerCase (cr_name r)) (toLowerCase search)
                     else True) rows)"






section \<open>The paged view\<close>

text \<open>
  \<open>Array.prototype.slice(start, end)\<close> on integer arguments, as ECMAScript defines it:
  a negative index counts from the end of the array, both indices are clamped to
  \<open>0 .. length\<close>, and the result is empty when the clamped end is not beyond the
  clamped start. It has no failing case.
\<close>

definition Array_slice :: "'a list \<Rightarrow> int \<Rightarrow> int \<Rightarrow> 'a list" where
  "Array_slice xs start stop =
     (let len = int (length xs);
          k = (if start < 0 then max (len + start) 0 else min start len);
          final = (if stop < 0 then max (len + stop) 0 else min stop len)
      in take (nat (final - k)) (drop (nat k) xs))"

text \<open>Lines 40 and 354: \<open>const pageSize = 5\<close> in both components.\<close>

definition pageSize :: int where
  "pageSize = 5"

text \<open>
  Lines 68-71 and 375-378 are the same two statements; \<open>paged_at\<close> is their body
  with the page size as an argument, and the two memoised values are its instances
  at \<open>pageSize\<close>.
\<close>

definition paged_at :: "int \<Rightarrow> 'a list \<Rightarrow> int \<Rightarrow> 'a list" where
  "paged_at ps filtered page =
     (let start = (page - 1) * ps in Array_slice filtered start (start + ps))"

definition Products_paged :: "'n ProductRow list \<Rightarrow> int \<Rightarrow> 'n ProductRow list" where
  "Products_paged filtered page = paged_at pageSize filtered page"

definition Categories_paged :: "CategoryRow list \<Rightarrow> int \<Rightarrow> CategoryRow list" where
  "Categories_paged filtered page = paged_at pageSize filtered page"

section \<open>Requests and their completion\<close>

text \<open>
  An \<open>axios\<close> call returns a promise. A handler that issues a request and attaches a
  \<open>.then\<close> callback is modelled by the pair of the request and the callback; the
  callback is a function on the component state because every \<open>setRows\<close> in the
  source is a functional update \<open>setRows((prev) => ...)\<close>, applied to the state that
  is current when the promise is fulfilled. No handler attaches a rejection callback, so
  a rejected promise leaves the state as it is.
\<close>

datatype 'b request =
    axios_get jstring
  | axios_post jstring 'b
  | axios_put jstring 'b
  | axios_delete jstring

datatype outcome = fulfilled | rejected

type_synonym ('b, 's) pending = "'b request \<times> ('s \<Rightarrow> 's)"

definition settle :: "outcome \<Rightarrow> ('b, 's) pending \<Rightarrow> 's \<Rightarrow> 's" where
  "settle out pend cur = (case out of fulfilled \<Rightarrow> snd pend cur | rejected \<Rightarrow> cur)"

text \<open>
  What an interaction does in the end: the requests it sends and the state it leaves
  behind. An interaction that produced no pending request sends nothing and changes nothing.
\<close>

definition effects_of ::
  "outcome \<Rightarrow> ('b, 's) pending option \<Rightarrow> 's \<Rightarrow> 'b request list \<times> 's" where
  "effects_of out p cur =
     (case p of None \<Rightarrow> ([], cur) | Some pend \<Rightarrow> ([fst pend], settle out pend cur))"

section \<open>The Products component\<close>

text \<open>
  \<open>setOpen\<close> together with the effect of lines 56-58, which runs after a render in
  which \<open>open\<close> changed and clears the staged image when the modal is closed.
\<close>

definition Products_setOpen :: "bool \<Rightarrow> 'n ProductsState \<Rightarrow> 'n ProductsState" where
  "Products_setOpen b st =
     (let st' = st\<lparr>ps_open := b\<rparr>
      in if ps_open st \<noteq> b \<and> \<not> b then st'\<lparr>ps_imageUrl := []\<rparr> else st')"

text \<open>Lines 123-132.\<close>

definition Products_onAdd :: "'n ProductsState \<Rightarrow> 'n ProductsState" where
  "Products_onAdd st = Products_setOpen True (st\<lparr>ps_editing := None\<rparr>)"

definition Products_onEdit :: "'n ProductRow \<Rightarrow> 'n ProductsState \<Rightarrow> 'n ProductsState" where
  "Products_onEdit row st =
     Products_setOpen True
       (st\<lparr>ps_editing := Some row,
           ps_imageUrl := (if pr_image row \<noteq> [] then pr_image row else [])\<rparr>)"

text \<open>
  Lines 134-146. \<open>Modal.confirm\<close> asks the user; \<open>confirmed\<close> says whether the user
  pressed the OK button, which alone runs \<open>onOk\<close>.
\<close>

definition Products_onDelete ::
  "bool \<Rightarrow> jstring \<Rightarrow> ('n ProductRow, 'n ProductsState) pending option" where
  "Products_onDelete confirmed i =
     (if confirmed
      then Some (axios_delete (ascii ''http://localhost:3001/products/'' @ i),
                 \<lambda>cur. cur\<lparr>ps_rows := filter (\<lambda>r. pr_id r \<noteq> i) (ps_rows cur)\<rparr>)
      else None)"

text \<open>
  Lines 148-154: the record built from the form values. \<open>uuid\<close> is the value
  \<open>uuidv4()\<close> returns and \<open>Number\<close> is the conversion of line 153. The spread of
  \<open>values\<close> cannot overwrite \<open>id\<close>: its type has no such field.
\<close>

definition Products_next ::
  "('n \<Rightarrow> 'n) \<Rightarrow> jstring \<Rightarrow> 'n ProductsState \<Rightarrow> 'n ProductValues \<Rightarrow> 'n ProductRow" where
  "Products_next Number uuid st values =
     \<lparr>pr_id = (case ps_editing st of Some editing \<Rightarrow> pr_id editing | None \<Rightarrow> uuid),
      pr_code = pv_code values,
      pr_name = pv_name values,
      pr_category = pv_category values,
      pr_price = Number (pv_price values),
      pr_image = ps_imageUrl st,
      pr_status = pv_status values\<rparr>"

text \<open>
  Lines 156-170. \<open>st\<close> is the state of the render whose closure runs (it fixes
  \<open>editing\<close>, \<open>imageUrl\<close> and so \<open>next\<close>); the callback receives the state current
  at completion.
\<close>

definition Products_onSubmit ::
  "('n \<Rightarrow> 'n) \<Rightarrow> jstring \<Rightarrow> 'n ProductsState \<Rightarrow> 'n ProductValues
     \<Rightarrow> ('n ProductRow, 'n ProductsState) pending" where
  "Products_onSubmit Number uuid st values =
     (let next = Products_next Number uuid st values
      in case ps_editing st of
           Some editing \<Rightarrow>
             (axios_put (ascii ''http://localhost:3001/products/'' @ pr_id editing) next,
              \<lambda>cur. Products_setOpen False
                       (cur\<lparr>ps_rows := map (\<lambda>r. if pr_id r = pr_id editing then next else r)
                                           (ps_rows cur)\<rparr>))
         | None \<Rightarrow>
             (axios_post (ascii ''http://localhost:3001/products'') next,
              \<lambda>cur. Products_setOpen False (cur\<lparr>ps_rows := ps_rows cur @ [next]\<rparr>)))"

text \<open>
  Lines 173-191. The function awaits one request and returns \<open>false\<close>. \<open>awaited\<close>
  is what the \<open>await\<close> yields: the \<open>secure_url\<close> of the response, or an exception,
  which the \<open>catch\<close> block writes to the console. The result is the new state, the lines
  written to the console and the returned value.
\<close>

datatype 'f FormDataValue = FileValue 'f | StringValue jstring

datatype 'a awaited = Resolved 'a | Rejected

definition handleUploadToCloudinary ::
  "jstring \<Rightarrow> jstring \<Rightarrow> 'f
     \<Rightarrow> (jstring \<times> 'f FormDataValue) list request
        \<times> (jstring awaited \<Rightarrow> 'n ProductsState \<Rightarrow> 'n ProductsState \<times> jstring list \<times> bool)" where
  "handleUploadToCloudinary CLOUD_NAME UPLOAD_PRESET file =
     (let url = ascii ''https://api.cloudinary.com/v1_1/'' @ CLOUD_NAME @ ascii ''/image/upload'';
          formData = [(ascii ''file'', FileValue file), (ascii ''upload_preset'', StringValue UPLOAD_PRESET)]
      in (axios_post url formData,
          \<lambda>res cur. case res of
                       Resolved secure_url \<Rightarrow> (cur\<lparr>ps_imageUrl := secure_url\<rparr>, [], False)
                     | Rejected \<Rightarrow> (cur, [ascii ''Upload failed:''], False)))"

text \<open>
  Lines 203-219 and 230-235: the change handlers of the status select (a cleared
  select passes \<open>undefined\<close>, here \<open>None\<close>, and \<open>|| ""\<close> turns it into the empty
  filter), of the search input and of the pagination control.
\<close>

definition Products_status_onChange ::
  "ProductStatus option \<Rightarrow> 'n ProductsState \<Rightarrow> 'n ProductsState" where
  "Products_status_onChange v st =
     st\<lparr>ps_statusFilter := (case v of Some s \<Rightarrow> Some s | None \<Rightarrow> None)\<rparr>"

definition Products_search_onChange :: "jstring \<Rightarrow> 'n ProductsState \<Rightarrow> 'n ProductsState" where
  "Products_search_onChange v st = st\<lparr>ps_search := v\<rparr>"

definition Products_setPage :: "int \<Rightarrow> 'n ProductsState \<Rightarrow> 'n ProductsState" where
  "Products_setPage p st = st\<lparr>ps_page := p\<rparr>"

text \<open>The rows the table shows (line 224): the page of the filtered rows.\<close>

definition Products_visible ::
  "(jstring \<Rightarrow> jstring) \<Rightarrow> 'n ProductsState \<Rightarrow> 'n ProductRow list" where
  "Products_visible toLowerCase st =
     Products_paged
       (Products_filtered toLowerCase (ps_rows st) (ps_search st) (ps_statusFilter st))
       (ps_page st)"

section \<open>The Categories component\<close>

text \<open>Lines 408-416. This component has no staged image and no effect on \<open>open\<close>.\<close>

definition Categories_onAdd :: "CategoriesState \<Rightarrow> CategoriesState" where
  "Categories_onAdd st = st\<lparr>cs_editing := None, cs_open := True\<rparr>"

definition Categories_onEdit :: "CategoryRow \<Rightarrow> CategoriesState \<Rightarrow> CategoriesState" where
  "Categories_onEdit row st = st\<lparr>cs_editing := Some row, cs_open := True\<rparr>"

text \<open>Lines 418-422: the request is sent at once, without a confirmation.\<close>

definition Categories_onDelete :: "jstring \<Rightarrow> (CategoryRow, CategoriesState) pending" where
  "Categories_onDelete i =
     (axios_delete (ascii ''http://localhost:3001/categories/'' @ i),
      \<lambda>cur. cur\<lparr>cs_rows := filter (\<lambda>r. cr_id r \<noteq> i) (cs_rows cur)\<rparr>)"

text \<open>Lines 424-445.\<close>

definition Categories_next :: "jstring \<Rightarrow> CategoriesState \<Rightarrow> CategoryValues \<Rightarrow> CategoryRow" where
  "Categories_next uuid st values =
     \<lparr>cr_id = (case cs_editing st of Some editing \<Rightarrow> cr_id editing | None \<Rightarrow> uuid),
      cr_name = cv_name values,
      cr_description = cv_description values,
      cr_status = cv_status values\<rparr>"

definition Categories_onSubmit ::
  "jstring \<Rightarrow> CategoriesState \<Rightarrow> CategoryValues \<Rightarrow> (CategoryRow, CategoriesState) pending" where
  "Categories_onSubmit uuid st values =
     (let next = Categories_next uuid st values
      in case cs_editing st of
           Some editing \<Rightarrow>
             (axios_put (ascii ''http://localhost:3001/categories/'' @ cr_id editing) next,
              \<lambda>cur. cur\<lparr>cs_rows := map (\<lambda>r. if cr_id r = cr_id editing then next else r)
                                        (cs_rows cur),
                         cs_open := False\<rparr>)
         | None \<Rightarrow>
             (axios_post (ascii ''http://localhost:3001/categories'') next,
              \<lambda>cur. cur\<lparr>cs_rows := cs_rows cur @ [next], cs_open := False\<rparr>))"

text \<open>Lines 457-473 and 484-489.\<close>

definition Categories_status_onChange ::
  "CategoryStatus option \<Rightarrow> CategoriesState \<Rightarrow> CategoriesState" where
  "Categories_status_onChange v st =
     st\<lparr>cs_statusFilter := (case v of Some s \<Rightarrow> Some s | None \<Rightarrow> None)\<rparr>"

definition Categories_search_onChange :: "jstring \<Rightarrow> CategoriesState \<Rightarrow> CategoriesState" where
  "Categories_search_onChange v st = st\<lparr>cs_search := v\<rparr>"

definition Categories_setPage :: "int \<Rightarrow> CategoriesState \<Rightarrow> CategoriesState" where
  "Categories_setPage p st = st\<lparr>cs_page := p\<rparr>"

definition Categories_visible ::
  "(jstring \<Rightarrow> jstring) \<Rightarrow> CategoriesState \<Rightarrow> CategoryRow list" where
  "Categories_visible toLowerCase st =
     Categories_paged
       (Categories_filtered toLowerCase (cs_rows st) (cs_search st) (cs_statusFilter st))
       (cs_page st)"

section \<open>Form validation\<close>

text \<open>
  Modelled from the spec: the check that runs between the press of the submit button and
  the call of \<open>onFinish\<close> is the form library's, whose code is not among the source
  files; the source only declares the rules (lines 254-313 and 504-522). The
  specification states the rules as "\<open>code\<close>/\<open>name\<close> (Products) and \<open>name\<close>
  (Categories) required non-empty; \<open>category\<close> required (Products); \<open>price\<close>
  required and must parse as a number \<open>\<ge> 0\<close>; \<open>status\<close> required", checked
  client-side before the submission. A required text is present when it is not empty;
  what makes a price acceptable is the parameter \<open>price_ok\<close>; a status always has one
  of its two values. Only a submission that passes every rule reaches \<open>onSubmit\<close>.
\<close>

definition required_given :: "jstring \<Rightarrow> bool" where
  "required_given v = (v \<noteq> [])"

definition Products_rules :: "('n \<Rightarrow> bool) \<Rightarrow> 'n ProductValues \<Rightarrow> bool" where
  "Products_rules price_ok values =
     (required_given (pv_code values) \<and> required_given (pv_name values) \<and>
      required_given (pv_category values) \<and> price_ok (pv_price values))"

definition Products_Form_submit ::
  "('n \<Rightarrow> bool) \<Rightarrow> ('n \<Rightarrow> 'n) \<Rightarrow> jstring \<Rightarrow> 'n ProductsState \<Rightarrow> 'n ProductValues
     \<Rightarrow> ('n ProductRow, 'n ProductsState) pending option" where
  "Products_Form_submit price_ok Number uuid st values =
     (if Products_rules price_ok values
      then Some (Products_onSubmit Number uuid st values) else None)"

definition Categories_rules :: "CategoryValues \<Rightarrow> bool" where
  "Categories_rules values = required_given (cv_name values)"

definition Categories_Form_submit ::
  "jstring \<Rightarrow> CategoriesState \<Rightarrow> CategoryValues
     \<Rightarrow> (CategoryRow, CategoriesState) pending option" where
  "Categories_Form_submit uuid st values =
     (if Categories_rules values then Some (Categories_onSubmit uuid st values) else None)"

section \<open>Example data\<close>

text \<open>
  The catalogue of the specification's scenarios (a pen and a book, one active and one
  inactive), two categories, and the values of one filled-in form for each component.
\<close>

definition ex_pen :: "int ProductRow" where
  "ex_pen = \<lparr>pr_id = ascii ''1'', pr_code = ascii ''A1'', pr_name = ascii ''Pen'', pr_category = ascii ''c1'',
             pr_price = 10, pr_image = [], pr_status = active\<rparr>"

definition ex_book :: "int ProductRow" where
  "ex_book = \<lparr>pr_id = ascii ''2'', pr_code = ascii ''B1'', pr_name = ascii ''Book'', pr_category = ascii ''c1'',
              pr_price = 20, pr_image = ascii ''http://img/book.png'', pr_status = inactive\<rparr>"

definition ex_products :: "int ProductsState" where
  "ex_products = \<lparr>ps_rows = [ex_pen, ex_book],
                  ps_categories = [\<lparr>cat_id = ascii ''c1'', cat_name = ascii ''Office''\<rparr>],
                  ps_search = [], ps_statusFilter = None, ps_page = 1, ps_open = False,
                  ps_editing = None, ps_imageUrl = []\<rparr>"

definition ex_values :: "int ProductValues" where
  "ex_values = \<lparr>pv_code = ascii ''C1'', pv_name = ascii ''Ink'', pv_category = ascii ''c1'', pv_price = 30,
                pv_status = active\<rparr>"

definition ex_office :: CategoryRow where
  "ex_office = \<lparr>cr_id = ascii ''c1'', cr_name = ascii ''Office'', cr_description = ascii ''Desk items'',
                cr_status = active\<rparr>"

definition ex_garden :: CategoryRow where
  "ex_garden = \<lparr>cr_id = ascii ''c2'', cr_name = ascii ''Garden'', cr_description = [],
                cr_status = inactive\<rparr>"

definition ex_categories :: CategoriesState where
  "ex_categories = \<lparr>cs_rows = [ex_office, ex_garden], cs_search = [], cs_statusFilter = None,
                    cs_page = 1, cs_open = False, cs_editing = None\<rparr>"

definition ex_cvalues :: CategoryValues where
  "ex_cvalues = \<lparr>cv_name = ascii ''Kitchen'', cv_description = ascii ''Pots'', cv_status = active\<rparr>"





definition ex_seven :: "nat list" where
  "ex_seven = [1, 2, 3, 4, 5, 6, 7]"

definition ex_shelf :: "int ProductRow list" where
  "ex_shelf = map (\<lambda>i. ex_pen\<lparr>pr_id := i, pr_code := ascii ''P'' @ i\<rparr>) [ascii ''3'', ascii ''4'', ascii ''5'', ascii ''6'', ascii ''7'']
              @ [ex_pen, ex_book]"

definition ex_page2 :: "int ProductsState" where
  "ex_page2 = ex_products\<lparr>ps_rows := ex_shelf, ps_page := 2\<rparr>"

section \<open>String literals\<close>

lemma ascii_Nil [simp]: "ascii [] = []"
  by (simp add: ascii_def)

lemma ascii_eq_Nil [simp]: "ascii s = [] \<longleftrightarrow> s = []"
  by (simp add: ascii_def)

lemma ascii_eq_iff [simp]: "ascii a = ascii b \<longleftrightarrow> a = b"
proof -
  have "inj (of_char :: char \<Rightarrow> nat)"
    by (rule inj_on_inverseI[where g = char_of]) simp
  then show ?thesis
    by (simp add: ascii_def inj_map_eq_map)
qed

lemmas ex_defs = ex_pen_def ex_book_def ex_products_def ex_values_def ex_office_def
  ex_garden_def ex_categories_def ex_cvalues_def

section \<open>Properties of the filtered view\<close>

lemma String_includes_sublist: "String_includes t s = sublist s t"
  by (induction t) (auto simp: sublist_Cons_right)

lemma String_includes_Nil: "String_includes t []"
  by (simp add: String_includes_sublist)















section \<open>Properties of the paged view\<close>

lemma take_min_length: "take (min n (length ys)) ys = take n ys"
  by (simp add: min_def)

lemma Array_slice_nonneg:
  assumes "0 \<le> start" and "start \<le> stop"
  shows "Array_slice xs start stop = take (nat (stop - start)) (drop (nat start) xs)"
proof (cases "start \<le> int (length xs)")
  case True
  let ?ys = "drop (nat start) xs"
  have len: "int (length ?ys) = int (length xs) - start"
    using assms True by simp
  have A: "Array_slice xs start stop = take (nat (min stop (int (length xs)) - start)) ?ys"
    using assms True by (simp add: Array_slice_def Let_def min_def)
  have B: "take (nat (min stop (int (length xs)) - start)) ?ys = take (nat (stop - start)) ?ys"
  proof (cases "stop \<le> int (length xs)")
    case True
    then show ?thesis by (simp add: min_def)
  next
    case False
    then have "length ?ys \<le> nat (int (length xs) - start)" and "length ?ys \<le> nat (stop - start)"
      using len by linarith+
    then have "take (nat (int (length xs) - start)) ?ys = ?ys" and "take (nat (stop - start)) ?ys = ?ys"
      by (simp_all only: take_all)
    then show ?thesis using False by (simp add: min_def)
  qed
  show ?thesis using A B by simp
next
  case False
  then show ?thesis
    using assms by (simp add: Array_slice_def Let_def min_def)
qed

lemma paged_at_take_drop:
  assumes "1 \<le> page" and "0 \<le> ps"
  shows "paged_at ps xs page = take (nat ps) (drop (nat ((page - 1) * ps)) xs)"
proof -
  have "0 \<le> (page - 1) * ps" using assms by simp
  then show ?thesis
    using assms by (simp add: paged_at_def Let_def Array_slice_nonneg)
qed

lemma upto_from_1: "[1..int n] = map (\<lambda>k. int k + 1) [0..<n]"
proof (induction n)
  case 0
  then show ?case by simp
next
  case (Suc n)
  have "[1..int (Suc n)] = [1..int n] @ [int n + 1]"
    by (simp add: upto_rec2 add.commute)
  then show ?case using Suc by simp
qed

lemma concat_chunks: "concat (map (\<lambda>k. take s (drop (k * s) xs)) [0..<n]) = take (n * s) xs"
proof (induction n)
  case 0
  then show ?case by simp
next
  case (Suc n)
  have "take (n * s + s) xs = take (n * s) xs @ take s (drop (n * s) xs)"
    by (rule take_add)
  moreover have "Suc n * s = n * s + s" by simp
  ultimately have "take (Suc n * s) xs = take (n * s) xs @ take s (drop (n * s) xs)"
    by (simp only:)
  then show ?case using Suc by simp
qed

lemma concat_pages:
  assumes "1 \<le> ps" and "int (length xs) \<le> int n * ps"
  shows "concat (map (paged_at ps xs) [1..int n]) = xs"
proof -
  have pg: "paged_at ps xs (int k + 1) = take (nat ps) (drop (k * nat ps) xs)" for k
  proof -
    have "nat (int k * ps) = k * nat ps"
      using assms(1) by (simp add: nat_mult_distrib)
    then show ?thesis
      using assms(1) by (simp add: paged_at_take_drop)
  qed
  have "concat (map (paged_at ps xs) [1..int n]) =
        concat (map (\<lambda>k. take (nat ps) (drop (k * nat ps) xs)) [0..<n])"
    by (simp add: upto_from_1 comp_def pg)
  also have "\<dots> = take (n * nat ps) xs"
    by (rule concat_chunks)
  also have "\<dots> = xs"
  proof -
    have "int (length xs) \<le> int (n * nat ps)"
      using assms by simp
    then have "length xs \<le> n * nat ps" by linarith
    then show ?thesis by simp
  qed
  finally show ?thesis .
qed

lemma int_ceil_bounds:
  assumes "(1::int) \<le> ps"
  shows "len \<le> ((len + ps - 1) div ps) * ps" and "((len + ps - 1) div ps - 1) * ps < len"
proof -
  let ?m = "len + ps - 1"
  have d: "?m = (?m div ps) * ps + ?m mod ps" by simp
  have lo: "0 \<le> ?m mod ps" and hi: "?m mod ps < ps"
    using assms by simp_all
  show "len \<le> (?m div ps) * ps" using d hi by linarith
  have "(?m div ps - 1) * ps = (?m div ps) * ps - ps" by (simp add: algebra_simps)
  then show "(?m div ps - 1) * ps < len" using d lo by linarith
qed

lemma ceiling_pages:
  assumes "1 \<le> ps"
  shows "\<lceil>real (length xs) / real_of_int ps\<rceil> = (int (length xs) + ps - 1) div ps"
proof (rule ceiling_unique)
  let ?n = "(int (length xs) + ps - 1) div ps"
  have p: "0 < real_of_int ps" using assms by simp
  have "real_of_int ((?n - 1) * ps) < real_of_int (int (length xs))"
    using int_ceil_bounds(2)[OF assms, of "int (length xs)"] by (simp only: of_int_less_iff)
  then show "real_of_int ?n - 1 < real (length xs) / real_of_int ps"
    using p by (simp add: pos_less_divide_eq)
  have "real_of_int (int (length xs)) \<le> real_of_int (?n * ps)"
    using int_ceil_bounds(1)[OF assms, of "int (length xs)"] by (simp only: of_int_le_iff)
  then show "real (length xs) / real_of_int ps \<le> real_of_int ?n"
    using p by (simp add: pos_divide_le_eq)
qed

text \<open>
  Claim C2. For every list of items, every page number \<open>p \<ge> 1\<close> and every page size,
  the page is the slice \<open>[(p - 1) * pageSize, (p - 1) * pageSize + pageSize)\<close> of the
  items, so it has at most \<open>pageSize\<close> items; and the pages
  \<open>1 .. \<lceil>len / pageSize\<rceil>\<close> concatenated are the items, in order, for every page size
  that gives a page count, that is from one on. A page size is a count of rows and so not
  negative; both components page with this function at \<open>pageSize = 5\<close>.
\<close>

theorem pages_are_slices_and_cover:
  assumes "1 \<le> p" and "0 \<le> ps"
  shows "paged_at ps items p = take (nat ps) (drop (nat ((p - 1) * ps)) items) \<and>
         int (length (paged_at ps items p)) \<le> ps \<and>
         (1 \<le> ps \<longrightarrow>
            concat (map (paged_at ps items) [1..\<lceil>real (length items) / real_of_int ps\<rceil>])
              = items) \<and>
         Products_paged prows p = paged_at 5 prows p \<and>
         Categories_paged crows p = paged_at 5 crows p"
proof -
  have cover: "concat (map (paged_at ps items) [1..\<lceil>real (length items) / real_of_int ps\<rceil>])
                 = items" if ps1: "1 \<le> ps"
  proof -
    let ?n = "(int (length items) + ps - 1) div ps"
    have n0: "0 \<le> ?n" using ps1 by (simp add: pos_imp_zdiv_nonneg_iff)
    have "int (length items) \<le> int (nat ?n) * ps"
      using int_ceil_bounds(1)[OF ps1, of "int (length items)"] n0 by simp
    then have "concat (map (paged_at ps items) [1..int (nat ?n)]) = items"
      by (rule concat_pages[OF ps1])
    then have "concat (map (paged_at ps items) [1..?n]) = items"
      using n0 by simp
    then show ?thesis by (simp add: ceiling_pages[OF ps1])
  qed
  have slice: "paged_at ps items p = take (nat ps) (drop (nat ((p - 1) * ps)) items)"
    using assms by (rule paged_at_take_drop)
  have "length (paged_at ps items p) \<le> nat ps"
    by (simp add: slice)
  then have bound: "int (length (paged_at ps items p)) \<le> ps"
    using assms(2) by linarith
  show ?thesis
    using cover slice bound
    by (simp add: Products_paged_def Categories_paged_def pageSize_def)
qed

theorem pages_are_slices_and_cover_witness:
  "(1::int) \<le> 2 \<and> 1 \<le> pageSize \<and>
   paged_at pageSize ex_seven 2 = [6, 7] \<and>
   concat (map (paged_at pageSize ex_seven) [1..\<lceil>real (length ex_seven) / real_of_int pageSize\<rceil>])
     = ex_seven \<and>
   Products_paged [ex_pen, ex_book] 2 = [] \<and>
   Categories_paged [ex_office, ex_garden] 2 = []"
proof -
  have h1: "(1::int) \<le> 2" by simp
  have h2: "1 \<le> pageSize" by (simp add: pageSize_def)
  have h0: "0 \<le> pageSize" by (simp add: pageSize_def)
  have e1: "paged_at 5 [ex_pen, ex_book] 2 = []" "paged_at 5 [ex_office, ex_garden] 2 = []"
    by (simp_all add: paged_at_take_drop)
  show ?thesis
    using h2 pages_are_slices_and_cover
               [OF h1 h0, of ex_seven "[ex_pen, ex_book]" "[ex_office, ex_garden]"]
    by (simp add: pageSize_def ex_seven_def e1)
qed

text \<open>
  Claim C9. Slicing a page is total for every page number \<open>p \<ge> 1\<close>: \<open>slice\<close> has no
  failing case and reads no index outside the list. When \<open>(p - 1) * pageSize\<close> is at or
  beyond the end of the filtered list the page is empty, and when the list is shorter than
  \<open>p * pageSize\<close> the page is the remaining tail.
\<close>

theorem page_slice_total:
  assumes "1 \<le> p" and "0 \<le> ps"
  shows "(int (length items) \<le> (p - 1) * ps \<longrightarrow> paged_at ps items p = []) \<and>
         (int (length items) < p * ps \<longrightarrow>
            paged_at ps items p = drop (nat ((p - 1) * ps)) items) \<and>
         (\<exists>pre post. items = pre @ paged_at ps items p @ post)"
proof -
  let ?k = "nat ((p - 1) * ps)"
  have eq: "paged_at ps items p = take (nat ps) (drop ?k items)"
    using assms by (rule paged_at_take_drop)
  have k0: "0 \<le> (p - 1) * ps" using assms by simp
  have a: "paged_at ps items p = []" if "int (length items) \<le> (p - 1) * ps"
  proof -
    have "length items \<le> ?k" using that k0 by linarith
    then show ?thesis by (simp add: eq)
  qed
  have b: "paged_at ps items p = drop ?k items" if "int (length items) < p * ps"
  proof -
    have "p * ps = (p - 1) * ps + ps" by (simp add: algebra_simps)
    then have "int (length items) - (p - 1) * ps \<le> ps" using that by linarith
    then have "length (drop ?k items) \<le> nat ps" using k0 by simp
    then show ?thesis by (simp add: eq)
  qed
  have "items = take ?k items @ take (nat ps) (drop ?k items) @ drop (nat ps) (drop ?k items)"
    by (simp only: append_take_drop_id)
  then have c: "\<exists>pre post. items = pre @ paged_at ps items p @ post"
    unfolding eq by blast
  show ?thesis using a b c by blast
qed

theorem page_slice_total_witness:
  "(1::int) \<le> 3 \<and> (0::int) \<le> pageSize \<and>
   int (length ex_seven) \<le> (3 - 1) * pageSize \<and> paged_at pageSize ex_seven 3 = [] \<and>
   int (length ex_seven) < 2 * pageSize \<and> paged_at pageSize ex_seven 2 = [6, 7]"
proof -
  have h1: "(1::int) \<le> 3" and h1': "(1::int) \<le> 2" by simp_all
  have h2: "0 \<le> pageSize" by (simp add: pageSize_def)
  show ?thesis
    using page_slice_total[OF h1 h2, of ex_seven] page_slice_total[OF h1' h2, of ex_seven]
    by (simp add: pageSize_def ex_seven_def)
qed

section \<open>Properties of the handlers\<close>

lemma settle_fulfilled: "settle fulfilled pend cur = snd pend cur"
  by (simp add: settle_def)

lemma settle_rejected: "settle rejected pend cur = cur"
  by (simp add: settle_def)

lemma ps_rows_setOpen: "ps_rows (Products_setOpen b st) = ps_rows st"
  by (simp add: Products_setOpen_def Let_def)

lemma Products_create_rows:
  assumes "ps_editing st = None"
  shows "ps_rows (settle fulfilled (Products_onSubmit Number uuid st values) cur) =
         ps_rows cur @ [Products_next Number uuid st values]"
    and "fst (Products_onSubmit Number uuid st values) =
         axios_post (ascii ''http://localhost:3001/products'') (Products_next Number uuid st values)"
  using assms by (simp_all add: settle_fulfilled Products_onSubmit_def Let_def ps_rows_setOpen)

lemma Products_update_rows:
  assumes "ps_editing st = Some e"
  shows "ps_rows (settle fulfilled (Products_onSubmit Number uuid st values) cur) =
         map (\<lambda>r. if pr_id r = pr_id e then Products_next Number uuid st values else r) (ps_rows cur)"
    and "fst (Products_onSubmit Number uuid st values) =
         axios_put (ascii ''http://localhost:3001/products/'' @ pr_id e) (Products_next Number uuid st values)"
  using assms by (simp_all add: settle_fulfilled Products_onSubmit_def Let_def ps_rows_setOpen)

lemma Categories_create_rows:
  assumes "cs_editing st = None"
  shows "cs_rows (settle fulfilled (Categories_onSubmit uuid st values) cur) =
         cs_rows cur @ [Categories_next uuid st values]"
    and "fst (Categories_onSubmit uuid st values) =
         axios_post (ascii ''http://localhost:3001/categories'') (Categories_next uuid st values)"
  using assms by (simp_all add: settle_fulfilled Categories_onSubmit_def Let_def)

lemma Categories_update_rows:
  assumes "cs_editing st = Some e"
  shows "cs_rows (settle fulfilled (Categories_onSubmit uuid st values) cur) =
         map (\<lambda>r. if cr_id r = cr_id e then Categories_next uuid st values else r) (cs_rows cur)"
    and "fst (Categories_onSubmit uuid st values) =
         axios_put (ascii ''http://localhost:3001/categories/'' @ cr_id e) (Categories_next uuid st values)"
  using assms by (simp_all add: settle_fulfilled Categories_onSubmit_def Let_def)

lemma Products_delete_rows:
  "ps_rows (snd (effects_of fulfilled (Products_onDelete True i) cur)) =
   filter (\<lambda>r. pr_id r \<noteq> i) (ps_rows cur)"
  by (simp add: effects_of_def Products_onDelete_def settle_fulfilled)

lemma Categories_delete_rows:
  "cs_rows (settle fulfilled (Categories_onDelete i) cur) = filter (\<lambda>r. cr_id r \<noteq> i) (cs_rows cur)"
  by (simp add: Categories_onDelete_def settle_fulfilled)

lemma filter_fresh_append:
  assumes "f x = k" and "k \<notin> f ` set xs"
  shows "filter (\<lambda>r. f r = k) (xs @ [x]) = [x]"
proof -
  have "filter (\<lambda>r. f r = k) xs = []"
    using assms(2) by (auto simp: filter_empty_conv)
  then show ?thesis using assms(1) by simp
qed

lemma map_replace_absent:
  assumes "k \<notin> f ` set xs"
  shows "map (\<lambda>r. if f r = k then y else r) xs = xs"
  using assms by (induction xs) auto

lemma filter_absent:
  assumes "k \<notin> f ` set xs"
  shows "filter (\<lambda>r. f r \<noteq> k) xs = xs"
  using assms by (induction xs) auto

lemma length_filter_remove_distinct:
  assumes "distinct (map f xs)" and "k \<in> f ` set xs"
  shows "length (filter (\<lambda>r. f r \<noteq> k) xs) + 1 = length xs"
  using assms
proof (induction xs)
  case Nil
  then show ?case by simp
next
  case (Cons x xs)
  show ?case
  proof (cases "f x = k")
    case True
    then have "k \<notin> f ` set xs" using Cons.prems(1) by auto
    then have "filter (\<lambda>r. f r \<noteq> k) xs = xs" by (rule filter_absent)
    then show ?thesis using True by simp
  next
    case False
    then have "k \<in> f ` set xs" using Cons.prems(2) by auto
    moreover have "distinct (map f xs)" using Cons.prems(1) by simp
    ultimately have "length (filter (\<lambda>r. f r \<noteq> k) xs) + 1 = length xs"
      by (rule Cons.IH[rotated])
    then show ?thesis using False by simp
  qed
qed

text \<open>
  Claim C3. After a create submission succeeds, the collection is one record longer and
  holds exactly one record with the freshly assigned id, whose fields are those of the
  draft: the form values, the price converted by \<open>Number\<close> and, for a product, the staged
  image. The id is fresh in the sense the claim gives it: unique, carried by no record of
  the collection.
\<close>

theorem add_appends_one_fresh_record:
  assumes "ps_editing st = None" and "uuid \<notin> pr_id ` set (ps_rows cur)"
    and "cs_editing cst = None" and "cuuid \<notin> cr_id ` set (cs_rows ccur)"
  shows
    "(let pend = Products_onSubmit Number uuid st values;
          cur' = settle fulfilled pend cur;
          next = \<lparr>pr_id = uuid, pr_code = pv_code values, pr_name = pv_name values,
                  pr_category = pv_category values, pr_price = Number (pv_price values),
                  pr_image = ps_imageUrl st, pr_status = pv_status values\<rparr>
      in fst pend = axios_post (ascii ''http://localhost:3001/products'') next \<and>
         length (ps_rows cur') = length (ps_rows cur) + 1 \<and>
         filter (\<lambda>r. pr_id r = uuid) (ps_rows cur') = [next] \<and>
         ps_rows cur' = ps_rows cur @ [next]) \<and>
     (let pend = Categories_onSubmit cuuid cst cvalues;
          cur' = settle fulfilled pend ccur;
          next = \<lparr>cr_id = cuuid, cr_name = cv_name cvalues,
                  cr_description = cv_description cvalues, cr_status = cv_status cvalues\<rparr>
      in fst pend = axios_post (ascii ''http://localhost:3001/categories'') next \<and>
         length (cs_rows cur') = length (cs_rows ccur) + 1 \<and>
         filter (\<lambda>r. cr_id r = cuuid) (cs_rows cur') = [next] \<and>
         cs_rows cur' = cs_rows ccur @ [next])"
proof -
  have pn: "Products_next Number uuid st values =
      \<lparr>pr_id = uuid, pr_code = pv_code values, pr_name = pv_name values,
       pr_category = pv_category values, pr_price = Number (pv_price values),
       pr_image = ps_imageUrl st, pr_status = pv_status values\<rparr>"
    using assms(1) by (simp add: Products_next_def)
  have cn: "Categories_next cuuid cst cvalues =
      \<lparr>cr_id = cuuid, cr_name = cv_name cvalues,
       cr_description = cv_description cvalues, cr_status = cv_status cvalues\<rparr>"
    using assms(3) by (simp add: Categories_next_def)
  have pf: "filter (\<lambda>r. pr_id r = uuid) (ps_rows cur @ [Products_next Number uuid st values]) =
        [Products_next Number uuid st values]"
    by (rule filter_fresh_append) (simp_all add: pn assms(2))
  have cf: "filter (\<lambda>r. cr_id r = cuuid) (cs_rows ccur @ [Categories_next cuuid cst cvalues]) =
        [Categories_next cuuid cst cvalues]"
    by (rule filter_fresh_append) (simp_all add: cn assms(4))
  have P: "fst (Products_onSubmit Number uuid st values) =
             axios_post (ascii ''http://localhost:3001/products'') (Products_next Number uuid st values)"
          "ps_rows (settle fulfilled (Products_onSubmit Number uuid st values) cur) =
             ps_rows cur @ [Products_next Number uuid st values]"
    using Products_create_rows[OF assms(1)] by simp_all
  have C: "fst (Categories_onSubmit cuuid cst cvalues) =
             axios_post (ascii ''http://localhost:3001/categories'') (Categories_next cuuid cst cvalues)"
          "cs_rows (settle fulfilled (Categories_onSubmit cuuid cst cvalues) ccur) =
             cs_rows ccur @ [Categories_next cuuid cst cvalues]"
    using Categories_create_rows[OF assms(3)] by simp_all
  show ?thesis
    unfolding Let_def P C pf cf
    by (simp add: pn cn)
qed


theorem add_appends_one_fresh_record_witness:
  "ps_editing (Products_onAdd ex_products) = None \<and>
   ascii ''3'' \<notin> pr_id ` set (ps_rows (Products_onAdd ex_products)) \<and>
   cs_editing (Categories_onAdd ex_categories) = None \<and>
   ascii ''c3'' \<notin> cr_id ` set (cs_rows (Categories_onAdd ex_categories)) \<and>
   ps_rows (settle fulfilled
              (Products_onSubmit (\<lambda>n. n) (ascii ''3'') (Products_onAdd ex_products) ex_values)
              (Products_onAdd ex_products)) =
     [ex_pen, ex_book,
      \<lparr>pr_id = ascii ''3'', pr_code = ascii ''C1'', pr_name = ascii ''Ink'', pr_category = ascii ''c1'',
       pr_price = 30, pr_image = [], pr_status = active\<rparr>] \<and>
   cs_rows (settle fulfilled
              (Categories_onSubmit (ascii ''c3'') (Categories_onAdd ex_categories) ex_cvalues)
              (Categories_onAdd ex_categories)) =
     [ex_office, ex_garden,
      \<lparr>cr_id = ascii ''c3'', cr_name = ascii ''Kitchen'', cr_description = ascii ''Pots'', cr_status = active\<rparr>]"
proof -
  have h1: "ps_editing (Products_onAdd ex_products) = None"
    by (simp add: Products_onAdd_def Products_setOpen_def Let_def)
  have h2: "ascii ''3'' \<notin> pr_id ` set (ps_rows (Products_onAdd ex_products))"
    by (simp add: Products_onAdd_def Products_setOpen_def Let_def ex_defs)
  have h3: "cs_editing (Categories_onAdd ex_categories) = None"
    by (simp add: Categories_onAdd_def)
  have h4: "ascii ''c3'' \<notin> cr_id ` set (cs_rows (Categories_onAdd ex_categories))"
    by (simp add: Categories_onAdd_def ex_defs)
  have r1: "ps_rows (Products_onAdd ex_products) = [ex_pen, ex_book]"
    by (simp add: Products_onAdd_def Products_setOpen_def Let_def ex_products_def)
  have r2: "ps_imageUrl (Products_onAdd ex_products) = []"
    by (simp add: Products_onAdd_def Products_setOpen_def Let_def ex_products_def)
  have r3: "cs_rows (Categories_onAdd ex_categories) = [ex_office, ex_garden]"
    by (simp add: Categories_onAdd_def ex_categories_def)
  show ?thesis
    using h1 h2 h3 h4
      add_appends_one_fresh_record[OF h1 h2 h3 h4, of "\<lambda>n. n" ex_values ex_cvalues]
    by (simp add: Let_def r1 r2 r3 ex_values_def ex_cvalues_def)
qed

text \<open>
  Claim C4. After an update of the record being edited succeeds, the collection has the
  same length, every position that held a record with the edited id holds the record built
  from the draft (which keeps that id), and every other position holds the record it held
  before.
\<close>

theorem update_replaces_in_place:
  assumes "ps_editing st = Some e" and "cs_editing cst = Some ce"
  shows
    "(let cur' = settle fulfilled (Products_onSubmit Number uuid st values) cur;
          next = \<lparr>pr_id = pr_id e, pr_code = pv_code values, pr_name = pv_name values,
                  pr_category = pv_category values, pr_price = Number (pv_price values),
                  pr_image = ps_imageUrl st, pr_status = pv_status values\<rparr>
      in length (ps_rows cur') = length (ps_rows cur) \<and>
         (\<forall>i < length (ps_rows cur).
            ps_rows cur' ! i = (if pr_id (ps_rows cur ! i) = pr_id e then next else ps_rows cur ! i)) \<and>
         (\<forall>r \<in> set (ps_rows cur'). pr_id r = pr_id e \<longrightarrow> r = next) \<and>
         (pr_id e \<in> pr_id ` set (ps_rows cur) \<longrightarrow> next \<in> set (ps_rows cur'))) \<and>
     (let cur' = settle fulfilled (Categories_onSubmit cuuid cst cvalues) ccur;
          next = \<lparr>cr_id = cr_id ce, cr_name = cv_name cvalues,
                  cr_description = cv_description cvalues, cr_status = cv_status cvalues\<rparr>
      in length (cs_rows cur') = length (cs_rows ccur) \<and>
         (\<forall>i < length (cs_rows ccur).
            cs_rows cur' ! i = (if cr_id (cs_rows ccur ! i) = cr_id ce then next else cs_rows ccur ! i)) \<and>
         (\<forall>r \<in> set (cs_rows cur'). cr_id r = cr_id ce \<longrightarrow> r = next) \<and>
         (cr_id ce \<in> cr_id ` set (cs_rows ccur) \<longrightarrow> next \<in> set (cs_rows cur')))"
proof -
  have pn: "Products_next Number uuid st values =
      \<lparr>pr_id = pr_id e, pr_code = pv_code values, pr_name = pv_name values,
       pr_category = pv_category values, pr_price = Number (pv_price values),
       pr_image = ps_imageUrl st, pr_status = pv_status values\<rparr>"
    using assms(1) by (simp add: Products_next_def)
  have cn: "Categories_next cuuid cst cvalues =
      \<lparr>cr_id = cr_id ce, cr_name = cv_name cvalues,
       cr_description = cv_description cvalues, cr_status = cv_status cvalues\<rparr>"
    using assms(2) by (simp add: Categories_next_def)
  have P: "ps_rows (settle fulfilled (Products_onSubmit Number uuid st values) cur) =
           map (\<lambda>r. if pr_id r = pr_id e then Products_next Number uuid st values else r) (ps_rows cur)"
    by (rule Products_update_rows(1)[OF assms(1)])
  have C: "cs_rows (settle fulfilled (Categories_onSubmit cuuid cst cvalues) ccur) =
           map (\<lambda>r. if cr_id r = cr_id ce then Categories_next cuuid cst cvalues else r) (cs_rows ccur)"
    by (rule Categories_update_rows(1)[OF assms(2)])
  have pid: "pr_id (Products_next Number uuid st values) = pr_id e" by (simp add: pn)
  have cid: "cr_id (Categories_next cuuid cst cvalues) = cr_id ce" by (simp add: cn)
  have gen: "length (map (\<lambda>r. if f r = k then y else r) xs) = length xs \<and>
         (\<forall>i < length xs. map (\<lambda>r. if f r = k then y else r) xs ! i = (if f (xs ! i) = k then y else xs ! i)) \<and>
         (\<forall>r \<in> set (map (\<lambda>r. if f r = k then y else r) xs). f r = k \<longrightarrow> r = y) \<and>
         (k \<in> f ` set xs \<longrightarrow> y \<in> set (map (\<lambda>r. if f r = k then y else r) xs))"
    for f :: "'r \<Rightarrow> jstring" and k y xs
    by (auto simp: image_iff)
  show ?thesis
    unfolding Let_def P C pn[symmetric] cn[symmetric]
    by (rule conjI[OF gen gen])
qed

theorem update_replaces_in_place_witness:
  "ps_editing (Products_onEdit ex_book ex_products) = Some ex_book \<and>
   cs_editing (Categories_onEdit ex_garden ex_categories) = Some ex_garden \<and>
   ps_rows (settle fulfilled
              (Products_onSubmit (\<lambda>n. n) (ascii ''3'') (Products_onEdit ex_book ex_products) ex_values)
              (Products_onEdit ex_book ex_products)) =
     [ex_pen,
      \<lparr>pr_id = ascii ''2'', pr_code = ascii ''C1'', pr_name = ascii ''Ink'', pr_category = ascii ''c1'',
       pr_price = 30, pr_image = ascii ''http://img/book.png'', pr_status = active\<rparr>] \<and>
   cs_rows (settle fulfilled
              (Categories_onSubmit (ascii ''c3'') (Categories_onEdit ex_garden ex_categories) ex_cvalues)
              (Categories_onEdit ex_garden ex_categories)) =
     [ex_office,
      \<lparr>cr_id = ascii ''c2'', cr_name = ascii ''Kitchen'', cr_description = ascii ''Pots'', cr_status = active\<rparr>]"
proof -
  have h1: "ps_editing (Products_onEdit ex_book ex_products) = Some ex_book"
    by (simp add: Products_onEdit_def Products_setOpen_def Let_def)
  have h2: "cs_editing (Categories_onEdit ex_garden ex_categories) = Some ex_garden"
    by (simp add: Categories_onEdit_def)
  have r1: "ps_rows (Products_onEdit ex_book ex_products) = [ex_pen, ex_book]"
    by (simp add: Products_onEdit_def Products_setOpen_def Let_def ex_products_def)
  have r2: "ps_imageUrl (Products_onEdit ex_book ex_products) = ascii ''http://img/book.png''"
    by (simp add: Products_onEdit_def Products_setOpen_def Let_def ex_products_def ex_book_def)
  have r3: "cs_rows (Categories_onEdit ex_garden ex_categories) = [ex_office, ex_garden]"
    by (simp add: Categories_onEdit_def ex_categories_def)
  have i1: "pr_id ex_pen = ascii ''1''" "pr_id ex_book = ascii ''2''" "cr_id ex_office = ascii ''c1''" "cr_id ex_garden = ascii ''c2''"
    by (simp_all add: ex_defs)
  have "length (ps_rows (settle fulfilled
              (Products_onSubmit (\<lambda>n. n) (ascii ''3'') (Products_onEdit ex_book ex_products) ex_values)
              (Products_onEdit ex_book ex_products))) = 2"
    using update_replaces_in_place[OF h1 h2, of "\<lambda>n. n" "ascii ''3''" ex_values
            "Products_onEdit ex_book ex_products" "ascii ''c3''" ex_cvalues
            "Categories_onEdit ex_garden ex_categories"]
    by (simp add: Let_def r1)
  then show ?thesis
    using h1 h2
    by (simp add: Products_update_rows(1)[OF h1] Categories_update_rows(1)[OF h2]
        Products_next_def Categories_next_def r1 r2 r3 i1 ex_values_def ex_cvalues_def)
qed

text \<open>
  Claim C5. For a collection whose ids are unique and an id present in it, after the delete
  succeeds no record of the collection has that id and the collection is exactly one record
  shorter. A product is deleted only after the user confirms; a category at once.
\<close>

theorem remove_deletes_exactly_one:
  assumes "distinct (map pr_id (ps_rows cur))" and "i \<in> pr_id ` set (ps_rows cur)"
    and "distinct (map cr_id (cs_rows ccur))" and "ci \<in> cr_id ` set (cs_rows ccur)"
  shows
    "(let cur' = snd (effects_of fulfilled (Products_onDelete True i) cur)
      in (\<forall>r \<in> set (ps_rows cur'). pr_id r \<noteq> i) \<and>
         length (ps_rows cur') + 1 = length (ps_rows cur)) \<and>
     (let cur' = settle fulfilled (Categories_onDelete ci) ccur
      in (\<forall>r \<in> set (cs_rows cur'). cr_id r \<noteq> ci) \<and>
         length (cs_rows cur') + 1 = length (cs_rows ccur))"
proof -
  have "length (filter (\<lambda>r. pr_id r \<noteq> i) (ps_rows cur)) + 1 = length (ps_rows cur)"
    using assms(1,2) by (rule length_filter_remove_distinct)
  moreover have "length (filter (\<lambda>r. cr_id r \<noteq> ci) (cs_rows ccur)) + 1 = length (cs_rows ccur)"
    using assms(3,4) by (rule length_filter_remove_distinct)
  ultimately show ?thesis
    by (simp add: Let_def Products_delete_rows Categories_delete_rows)
qed

theorem remove_deletes_exactly_one_witness:
  "distinct (map pr_id (ps_rows ex_products)) \<and> ascii ''1'' \<in> pr_id ` set (ps_rows ex_products) \<and>
   distinct (map cr_id (cs_rows ex_categories)) \<and> ascii ''c2'' \<in> cr_id ` set (cs_rows ex_categories) \<and>
   ps_rows (snd (effects_of fulfilled (Products_onDelete True (ascii ''1'')) ex_products)) = [ex_book] \<and>
   length (ps_rows (snd (effects_of fulfilled (Products_onDelete True (ascii ''1'')) ex_products))) + 1
     = length (ps_rows ex_products) \<and>
   cs_rows (settle fulfilled (Categories_onDelete (ascii ''c2'')) ex_categories) = [ex_office] \<and>
   length (cs_rows (settle fulfilled (Categories_onDelete (ascii ''c2'')) ex_categories)) + 1
     = length (cs_rows ex_categories)"
proof -
  have h1: "distinct (map pr_id (ps_rows ex_products))" by (simp add: ex_defs)
  have h2: "(ascii ''1'') \<in> pr_id ` set (ps_rows ex_products)" by (simp add: ex_defs)
  have h3: "distinct (map cr_id (cs_rows ex_categories))" by (simp add: ex_defs)
  have h4: "(ascii ''c2'') \<in> cr_id ` set (cs_rows ex_categories)" by (simp add: ex_defs)
  have e1: "ps_rows (snd (effects_of fulfilled (Products_onDelete True (ascii ''1'')) ex_products)) = [ex_book]"
    by (simp add: Products_delete_rows ex_defs)
  have e2: "cs_rows (settle fulfilled (Categories_onDelete (ascii ''c2'')) ex_categories) = [ex_office]"
    by (simp add: Categories_delete_rows ex_defs)
  show ?thesis
    using h1 h2 h3 h4 e1 e2 remove_deletes_exactly_one[OF h1 h2 h3 h4]
    by (simp add: Let_def)
qed

text \<open>
  Claim C10. When no record of the collection has the id, the local reconciliation of an
  update (the per-element replacement) and of a delete (the filter) leave the collection
  exactly as it was.
\<close>

theorem absent_id_leaves_collection:
  assumes "ps_editing st = Some e" and "pr_id e \<notin> pr_id ` set (ps_rows cur)"
    and "i \<notin> pr_id ` set (ps_rows cur)"
    and "cs_editing cst = Some ce" and "cr_id ce \<notin> cr_id ` set (cs_rows ccur)"
    and "ci \<notin> cr_id ` set (cs_rows ccur)"
  shows
    "ps_rows (settle fulfilled (Products_onSubmit Number uuid st values) cur) = ps_rows cur \<and>
     ps_rows (snd (effects_of fulfilled (Products_onDelete True i) cur)) = ps_rows cur \<and>
     cs_rows (settle fulfilled (Categories_onSubmit cuuid cst cvalues) ccur) = cs_rows ccur \<and>
     cs_rows (settle fulfilled (Categories_onDelete ci) ccur) = cs_rows ccur"
  using assms
  by (simp add: Products_update_rows(1) Categories_update_rows(1) Products_delete_rows
      Categories_delete_rows map_replace_absent filter_absent)

theorem absent_id_leaves_collection_witness:
  "ps_editing (Products_onEdit ex_book ex_products) = Some ex_book \<and>
   pr_id ex_book \<notin> pr_id ` set (ps_rows (ex_products\<lparr>ps_rows := [ex_pen]\<rparr>)) \<and>
   cs_editing (Categories_onEdit ex_garden ex_categories) = Some ex_garden \<and>
   cr_id ex_garden \<notin> cr_id ` set (cs_rows (ex_categories\<lparr>cs_rows := [ex_office]\<rparr>)) \<and>
   ps_rows (settle fulfilled
              (Products_onSubmit (\<lambda>n. n) (ascii ''3'') (Products_onEdit ex_book ex_products) ex_values)
              (ex_products\<lparr>ps_rows := [ex_pen]\<rparr>)) = [ex_pen] \<and>
   ps_rows (snd (effects_of fulfilled (Products_onDelete True (ascii ''2''))
              (ex_products\<lparr>ps_rows := [ex_pen]\<rparr>))) = [ex_pen] \<and>
   cs_rows (settle fulfilled
              (Categories_onSubmit (ascii ''c3'') (Categories_onEdit ex_garden ex_categories) ex_cvalues)
              (ex_categories\<lparr>cs_rows := [ex_office]\<rparr>)) = [ex_office] \<and>
   cs_rows (settle fulfilled (Categories_onDelete (ascii ''c2''))
              (ex_categories\<lparr>cs_rows := [ex_office]\<rparr>)) = [ex_office]"
proof -
  have h1: "ps_editing (Products_onEdit ex_book ex_products) = Some ex_book"
    by (simp add: Products_onEdit_def Products_setOpen_def Let_def)
  have h2: "pr_id ex_book \<notin> pr_id ` set (ps_rows (ex_products\<lparr>ps_rows := [ex_pen]\<rparr>))"
    by (simp add: ex_defs)
  have h3: "ascii ''2'' \<notin> pr_id ` set (ps_rows (ex_products\<lparr>ps_rows := [ex_pen]\<rparr>))"
    by (simp add: ex_defs)
  have h4: "cs_editing (Categories_onEdit ex_garden ex_categories) = Some ex_garden"
    by (simp add: Categories_onEdit_def)
  have h5: "cr_id ex_garden \<notin> cr_id ` set (cs_rows (ex_categories\<lparr>cs_rows := [ex_office]\<rparr>))"
    by (simp add: ex_defs)
  have h6: "ascii ''c2'' \<notin> cr_id ` set (cs_rows (ex_categories\<lparr>cs_rows := [ex_office]\<rparr>))"
    by (simp add: ex_defs)
  show ?thesis
    using h1 h2 h4 h5
      absent_id_leaves_collection[OF h1 h2 h3 h4 h5 h6, of "\<lambda>n. n" "ascii ''3''" ex_values "ascii ''c3''" ex_cvalues]
    by simp
qed

text \<open>
  Claim C6. A submission whose required name field is empty is rejected before any request
  is sent, and the collection, with the rest of the state, stays as it was, whatever a
  request would have answered. This holds of a create submission as of any other.
\<close>

theorem empty_name_is_rejected:
  assumes "pv_name values = []" and "cv_name cvalues = []"
  shows
    "effects_of out (Products_Form_submit price_ok Number uuid st values) cur = ([], cur) \<and>
     effects_of out (Categories_Form_submit cuuid cst cvalues) ccur = ([], ccur)"
  using assms
  by (simp add: effects_of_def Products_Form_submit_def Categories_Form_submit_def
      Products_rules_def Categories_rules_def required_given_def)

theorem empty_name_is_rejected_witness:
  "pv_name (ex_values\<lparr>pv_name := []\<rparr>) = [] \<and> cv_name (ex_cvalues\<lparr>cv_name := []\<rparr>) = [] \<and>
   effects_of fulfilled
     (Products_Form_submit (\<lambda>n. 0 \<le> n) (\<lambda>n. n) (ascii ''3'') (Products_onAdd ex_products)
        (ex_values\<lparr>pv_name := []\<rparr>))
     (Products_onAdd ex_products) = ([], Products_onAdd ex_products) \<and>
   effects_of fulfilled
     (Categories_Form_submit (ascii ''c3'') (Categories_onAdd ex_categories) (ex_cvalues\<lparr>cv_name := []\<rparr>))
     (Categories_onAdd ex_categories) = ([], Categories_onAdd ex_categories) \<and>
   fst (effects_of fulfilled
     (Products_Form_submit (\<lambda>n. 0 \<le> n) (\<lambda>n. n) (ascii ''3'') (Products_onAdd ex_products) ex_values)
     (Products_onAdd ex_products)) =
     [axios_post (ascii ''http://localhost:3001/products'')
        \<lparr>pr_id = ascii ''3'', pr_code = ascii ''C1'', pr_name = ascii ''Ink'', pr_category = ascii ''c1'',
         pr_price = 30, pr_image = [], pr_status = active\<rparr>]"
proof -
  have h1: "pv_name (ex_values\<lparr>pv_name := []\<rparr>) = []" by simp
  have h2: "cv_name (ex_cvalues\<lparr>cv_name := []\<rparr>) = []" by simp
  have e: "fst (effects_of fulfilled
     (Products_Form_submit (\<lambda>n. 0 \<le> n) (\<lambda>n. n) (ascii ''3'') (Products_onAdd ex_products) ex_values)
     (Products_onAdd ex_products)) =
     [axios_post (ascii ''http://localhost:3001/products'')
        \<lparr>pr_id = ascii ''3'', pr_code = ascii ''C1'', pr_name = ascii ''Ink'', pr_category = ascii ''c1'',
         pr_price = 30, pr_image = [], pr_status = active\<rparr>]"
    by (simp add: effects_of_def Products_Form_submit_def Products_rules_def required_given_def
        Products_onSubmit_def Products_next_def Products_onAdd_def Products_setOpen_def Let_def
        ex_values_def ex_products_def)
  show ?thesis
    using e empty_name_is_rejected[OF h1 h2, of fulfilled "\<lambda>n. 0 \<le> n" "\<lambda>n. n" "ascii ''3''"
        "Products_onAdd ex_products" "Products_onAdd ex_products" "ascii ''c3''"
        "Categories_onAdd ex_categories" "Categories_onAdd ex_categories"]
    by simp
qed

text \<open>
  Claim C7. When the image upload fails, the error is written to the console and the state,
  with the previously staged image URL, is unchanged. When it succeeds, the returned
  \<open>secure_url\<close> becomes the staged image URL. In either case the upload is the only request
  the function sends, it returns \<open>false\<close>, and nothing but the staged image URL changes: the
  rows, the open modal and the record being edited stay, so the form is not submitted.
\<close>

theorem upload_stages_image_or_logs:
  "(let req = fst (handleUploadToCloudinary CLOUD_NAME UPLOAD_PRESET img);
        k = snd (handleUploadToCloudinary CLOUD_NAME UPLOAD_PRESET img)
    in req = axios_post (ascii ''https://api.cloudinary.com/v1_1/'' @ CLOUD_NAME @ (ascii ''/image/upload''))
               [(ascii ''file'', FileValue img), (ascii ''upload_preset'', StringValue UPLOAD_PRESET)] \<and>
       fst (k Rejected cur) = cur \<and>
       fst (snd (k Rejected cur)) = [ascii ''Upload failed:''] \<and>
       ps_imageUrl (fst (k (Resolved secure_url) cur)) = secure_url \<and>
       fst (snd (k (Resolved secure_url) cur)) = [] \<and>
       (fst (k res cur))\<lparr>ps_imageUrl := ps_imageUrl cur\<rparr> = cur \<and>
       ps_rows (fst (k res cur)) = ps_rows cur \<and>
       ps_open (fst (k res cur)) = ps_open cur \<and>
       ps_editing (fst (k res cur)) = ps_editing cur \<and>
       snd (snd (k res cur)) = False)"
  by (cases res) (simp_all add: handleUploadToCloudinary_def Let_def)

theorem upload_stages_image_or_logs_witness:
  "ps_imageUrl (fst (snd (handleUploadToCloudinary (ascii ''demo'') (ascii ''preset'') (ascii ''pen.png''))
                       Rejected (Products_onEdit ex_book ex_products))) = ascii ''http://img/book.png'' \<and>
   ps_imageUrl (fst (snd (handleUploadToCloudinary (ascii ''demo'') (ascii ''preset'') (ascii ''pen.png''))
                       (Resolved (ascii ''https://cdn/pen.png'')) (Products_onEdit ex_book ex_products)))
     = ascii ''https://cdn/pen.png'' \<and>
   ps_rows (fst (snd (handleUploadToCloudinary (ascii ''demo'') (ascii ''preset'') (ascii ''pen.png''))
                       (Resolved (ascii ''https://cdn/pen.png'')) (Products_onEdit ex_book ex_products)))
     = [ex_pen, ex_book]"
proof -
  have r: "ps_imageUrl (Products_onEdit ex_book ex_products) = ascii ''http://img/book.png''"
          "ps_rows (Products_onEdit ex_book ex_products) = [ex_pen, ex_book]"
    by (simp_all add: Products_onEdit_def Products_setOpen_def Let_def ex_products_def ex_book_def)
  note u = upload_stages_image_or_logs
            [where CLOUD_NAME = "ascii ''demo''" and UPLOAD_PRESET = "ascii ''preset''"
               and img = "ascii ''pen.png''" and cur = "Products_onEdit ex_book ex_products"
               and secure_url = "ascii ''https://cdn/pen.png''"
               and res = "Resolved (ascii ''https://cdn/pen.png'')", unfolded Let_def]
  have c1: "fst (snd (handleUploadToCloudinary (ascii ''demo'') (ascii ''preset'') (ascii ''pen.png''))
                  Rejected (Products_onEdit ex_book ex_products))
            = Products_onEdit ex_book ex_products"
    using u by (elim conjE)
  have c2: "ps_imageUrl (fst (snd (handleUploadToCloudinary (ascii ''demo'') (ascii ''preset'') (ascii ''pen.png''))
                  (Resolved (ascii ''https://cdn/pen.png'')) (Products_onEdit ex_book ex_products)))
            = ascii ''https://cdn/pen.png''"
    using u by (elim conjE)
  have c3: "ps_rows (fst (snd (handleUploadToCloudinary (ascii ''demo'') (ascii ''preset'') (ascii ''pen.png''))
                  (Resolved (ascii ''https://cdn/pen.png'')) (Products_onEdit ex_book ex_products)))
            = ps_rows (Products_onEdit ex_book ex_products)"
    using u by (elim conjE)
  show ?thesis
    by (simp only: c1 c2 c3 r)
qed

text \<open>
  Claim C8. A change of the search text or of the status filter changes that one field of
  the view state and nothing else; the current page stays as it was.
\<close>

theorem search_and_filter_keep_page:
  "ps_page (Products_search_onChange v st) = ps_page st \<and>
   Products_search_onChange v st = st\<lparr>ps_search := v\<rparr> \<and>
   ps_page (Products_status_onChange f st) = ps_page st \<and>
   Products_status_onChange f st = st\<lparr>ps_statusFilter := f\<rparr> \<and>
   cs_page (Categories_search_onChange v cst) = cs_page cst \<and>
   Categories_search_onChange v cst = cst\<lparr>cs_search := v\<rparr> \<and>
   cs_page (Categories_status_onChange f cst) = cs_page cst \<and>
   Categories_status_onChange f cst = cst\<lparr>cs_statusFilter := f\<rparr>"
  by (cases f)
    (simp_all add: Products_search_onChange_def Products_status_onChange_def
      Categories_search_onChange_def Categories_status_onChange_def)

theorem search_and_filter_keep_page_witness:
  "ps_page ex_page2 = 2 \<and>
   ps_page (Products_search_onChange (ascii ''book'') ex_page2) = 2 \<and>
   Products_visible String_toLowerCase ex_page2 = [ex_pen, ex_book] \<and>
   Products_visible String_toLowerCase (Products_search_onChange (ascii ''book'') ex_page2) = []"
proof -
  have v1: "Products_visible String_toLowerCase ex_page2 = [ex_pen, ex_book]"
    by code_simp
  have v2: "Products_visible String_toLowerCase (ex_page2\<lparr>ps_search := ascii ''book''\<rparr>) = []"
    by code_simp
  have p: "ps_page ex_page2 = 2" by (simp add: ex_page2_def)
  show ?thesis
    using search_and_filter_keep_page[of "ascii ''book''" ex_page2 None ex_categories] v1 v2 p
    by simp
qed

end
